theory Spec2Isabelle
  imports Complex_Main "HOL-Library.Multiset" "HOL-Library.Product_Lexorder"
begin

section \<open>Data model\<close>

text \<open>
  A row of the table \<open>tournament_points\<close>, as the interface \<open>PointsTableEntry\<close> of
  \<open>PointsTableAdmin.tsx\<close> declares it. The counters are \<open>integer\<close> columns, so they are
  modelled as \<open>int\<close>: negative values are representable, non-finite ones are not.
  The optional field \<open>group_name?: string | null\<close> keeps its three shapes.
\<close>

datatype groupName = NoGroupName | NullGroupName | GroupName string

record PointsTableEntry =
  id' :: string
  tournament_id :: string
  team_id :: string
  team_name :: string
  points :: int
  position :: int
  kills :: int
  wins :: int
  group_name :: groupName
  position_in_group :: "int option"
  created_at :: string
  updated_at :: string

text \<open>
  The object literal that \<open>autoCalculatePositions\<close> pushes for each entry. The grouped
  branch writes the keys \<open>group_name\<close> and \<open>position_in_group\<close>; the other branch leaves
  both keys out (\<open>None\<close>).
\<close>

record PositionUpdate =
  u_id :: string
  u_tournament_id :: string
  u_team_id :: string
  u_team_name :: string
  u_points :: int
  u_kills :: int
  u_wins :: int
  u_group_name :: "groupName option"
  u_position :: int
  u_position_in_group :: "int option"

datatype failure = TypeError | OtherException

text \<open>
  What a handler did: it returned before its \<open>try\<close> block, an exception reached its
  \<open>catch\<close>, or it handed a payload to \<open>supabase.upsert\<close>.
\<close>

datatype 'a outcome = Skipped | Raised failure | Upsert 'a

section \<open>Array.prototype.sort and findIndex\<close>

text \<open>
  \<open>Array.prototype.sort\<close> with a comparison function is stable (ECMAScript 2019), and
  for a consistent comparison function the stable sorted arrangement is unique; it is
  computed here by insertion from the right, an element staying in front of the later
  elements it compares equal to.
\<close>

fun insertBy :: "('a \<Rightarrow> 'a \<Rightarrow> int) \<Rightarrow> 'a \<Rightarrow> 'a list \<Rightarrow> 'a list" where
  "insertBy cmp x [] = [x]"
| "insertBy cmp x (y # ys) = (if cmp x y \<le> 0 then x # y # ys else y # insertBy cmp x ys)"

definition sortBy :: "('a \<Rightarrow> 'a \<Rightarrow> int) \<Rightarrow> 'a list \<Rightarrow> 'a list" where
  "sortBy cmp xs = foldr (insertBy cmp) xs []"

text \<open>\<open>findIndex\<close> returns the index of the first match, and \<open>-1\<close> when there is none.\<close>

fun findIndexFrom :: "int \<Rightarrow> ('a \<Rightarrow> bool) \<Rightarrow> 'a list \<Rightarrow> int" where
  "findIndexFrom i P [] = - 1"
| "findIndexFrom i P (x # xs) = (if P x then i else findIndexFrom (i + 1) P xs)"

definition findIndex :: "('a \<Rightarrow> bool) \<Rightarrow> 'a list \<Rightarrow> int" where
  "findIndex P xs = findIndexFrom 0 P xs"

section \<open>The comparison functions\<close>

text \<open>
  \<open>autoCalculatePositions\<close>, both branches:
  \<^verbatim>\<open>(a, b) => { if (b.points !== a.points) return b.points - a.points;
               return b.kills - a.kills; }\<close>
\<close>

definition compareEntries :: "PointsTableEntry \<Rightarrow> PointsTableEntry \<Rightarrow> int" where
  "compareEntries a b =
     (if points b \<noteq> points a then points b - points a else kills b - kills a)"

text \<open>
  The points table shown to participants sorts each group with
  \<^verbatim>\<open>(a, b) => { if (b.points !== a.points) return b.points - a.points;
               if (b.kills !== a.kills) return b.kills - a.kills;
               return b.wins - a.wins; }\<close>
\<close>

definition compareForDisplay :: "PointsTableEntry \<Rightarrow> PointsTableEntry \<Rightarrow> int" where
  "compareForDisplay a b =
     (if points b \<noteq> points a then points b - points a
      else if kills b \<noteq> kills a then kills b - kills a
      else wins b - wins a)"

section \<open>Grouping by group name\<close>

text \<open>\<open>entry.group_name || 'Ungrouped'\<close>: absent, null and empty names are falsy.\<close>

definition groupKey :: "groupName \<Rightarrow> string" where
  "groupKey g = (case g of GroupName s \<Rightarrow> (if s = [] then ''Ungrouped'' else s)
                          | _ \<Rightarrow> ''Ungrouped'')"

text \<open>
  The accumulator of the \<open>reduce\<close> is the object literal \<open>{}\<close>: its own properties are
  kept in insertion order, and a read of a key it does not own falls through to
  \<open>Object.prototype\<close>. These are the property names of \<open>Object.prototype\<close> in the
  ECMAScript standard library (with Annex B); each holds a function or an object, so the
  guard \<open>!acc[groupName]\<close> is false for them and the call of \<open>push\<close> on the inherited
  value throws a \<open>TypeError\<close>.
\<close>

definition objectPrototypeKeys :: "string list" where
  "objectPrototypeKeys =
     [''constructor'', ''hasOwnProperty'', ''isPrototypeOf'', ''propertyIsEnumerable'',
      ''toLocaleString'', ''toString'', ''valueOf'', ''__proto__'',
      ''__defineGetter__'', ''__defineSetter__'', ''__lookupGetter__'', ''__lookupSetter__'']"

type_synonym 'a groups = "(string \<times> 'a list) list"

fun pushEntry :: "'a groups \<Rightarrow> string \<Rightarrow> 'a \<Rightarrow> 'a groups" where
  "pushEntry [] g e = []"
| "pushEntry ((k, es) # acc) g e =
     (if k = g then (k, es @ [e]) # acc else (k, es) # pushEntry acc g e)"

definition groupStep :: "('a \<Rightarrow> groupName) \<Rightarrow> 'a groups \<Rightarrow> 'a \<Rightarrow> failure + 'a groups" where
  "groupStep gn acc entry =
     (let groupName = groupKey (gn entry) in
      case map_of acc groupName of
        Some es \<Rightarrow> Inr (pushEntry acc groupName entry)
      | None \<Rightarrow>
          if groupName \<in> set objectPrototypeKeys then Inl TypeError
          else Inr (acc @ [(groupName, [entry])]))"

fun reduceGroups :: "('a \<Rightarrow> groupName) \<Rightarrow> 'a groups \<Rightarrow> 'a list \<Rightarrow> failure + 'a groups" where
  "reduceGroups gn acc [] = Inr acc"
| "reduceGroups gn acc (e # es) =
     (case groupStep gn acc e of Inl err \<Rightarrow> Inl err | Inr acc' \<Rightarrow> reduceGroups gn acc' es)"

text \<open>
  \<open>Object.entries\<close> lists the keys that are array indices (canonical decimal numerals
  below \<open>2^32 - 1\<close>) first, in ascending numeric order, and then the other keys in
  insertion order.
\<close>

definition isDigit :: "char \<Rightarrow> bool" where
  "isDigit c = (let n = of_char c :: nat in 48 \<le> n \<and> n \<le> 57)"

definition digitValue :: "char \<Rightarrow> int" where
  "digitValue c = int (of_char c) - 48"

definition decimalValue :: "string \<Rightarrow> int" where
  "decimalValue s = foldl (\<lambda>n c. 10 * n + digitValue c) 0 s"

definition isArrayIndex :: "string \<Rightarrow> bool" where
  "isArrayIndex s =
     (s \<noteq> [] \<and> list_all isDigit s \<and> (s = ''0'' \<or> hd s \<noteq> CHR ''0'')
      \<and> decimalValue s < 4294967295)"

definition objectEntries :: "'a groups \<Rightarrow> 'a groups" where
  "objectEntries acc =
     sort_key (\<lambda>ge. decimalValue (fst ge)) (filter (\<lambda>ge. isArrayIndex (fst ge)) acc)
     @ filter (\<lambda>ge. \<not> isArrayIndex (fst ge)) acc"

section \<open>autoCalculatePositions\<close>

definition groupUpdates ::
  "PointsTableEntry list \<Rightarrow> string \<times> PointsTableEntry list \<Rightarrow> PositionUpdate list" where
  "groupUpdates sortedEntries ge =
     map (\<lambda>(index, entry).
            \<lparr> u_id = id' entry,
              u_tournament_id = tournament_id entry,
              u_team_id = team_id entry,
              u_team_name = team_name entry,
              u_points = points entry,
              u_kills = kills entry,
              u_wins = wins entry,
              u_group_name = Some (group_name entry),
              u_position = findIndex (\<lambda>e. id' e = id' entry) sortedEntries + 1,
              u_position_in_group = Some (int index + 1) \<rparr>)
         (enumerate 0 (snd ge))"

definition overallUpdates :: "PointsTableEntry list \<Rightarrow> PositionUpdate list" where
  "overallUpdates sortedEntries =
     map (\<lambda>(index, entry).
            \<lparr> u_id = id' entry,
              u_tournament_id = tournament_id entry,
              u_team_id = team_id entry,
              u_team_name = team_name entry,
              u_points = points entry,
              u_kills = kills entry,
              u_wins = wins entry,
              u_group_name = None,
              u_position = int index + 1,
              u_position_in_group = None \<rparr>)
         (enumerate 0 sortedEntries)"

text \<open>
  The handler up to the call of \<open>upsert\<close>. \<open>selectedTournament\<close> is the selected
  tournament's id (the empty string when none is selected) and \<open>supportsGrouping\<close> the
  flag the component derives from the tournament's team size.
\<close>

definition autoCalculatePositions ::
  "string \<Rightarrow> bool \<Rightarrow> PointsTableEntry list \<Rightarrow> PositionUpdate list outcome" where
  "autoCalculatePositions selectedTournament supportsGrouping pointsEntries =
     (if selectedTournament = [] \<or> pointsEntries = [] then Skipped
      else if supportsGrouping then
        (let sortedEntries = sortBy compareEntries pointsEntries in
         case reduceGroups group_name [] sortedEntries of
           Inl err \<Rightarrow> Raised err
         | Inr groupedEntries \<Rightarrow>
             Upsert (concat (map (groupUpdates sortedEntries) (objectEntries groupedEntries))))
      else
        (let sortedEntries = sortBy compareEntries pointsEntries in
         Upsert (overallUpdates sortedEntries)))"

section \<open>JavaScript numbers\<close>

text \<open>
  A JavaScript number: \<open>NaN\<close>, an infinity or a finite double. Finite doubles are kept
  as the reals they denote; the two zeros are one value here, which no test made on
  these numbers tells apart.
\<close>

datatype number = NaN | NegInfinity | Finite real | PosInfinity

fun jsGreater :: "number \<Rightarrow> number \<Rightarrow> bool" where
  "jsGreater (Finite x) (Finite y) = (x > y)"
| "jsGreater PosInfinity (Finite y) = True"
| "jsGreater PosInfinity NegInfinity = True"
| "jsGreater (Finite x) NegInfinity = True"
| "jsGreater a b = False"

fun jsLessEq :: "number \<Rightarrow> number \<Rightarrow> bool" where
  "jsLessEq (Finite x) (Finite y) = (x \<le> y)"
| "jsLessEq NegInfinity (Finite y) = True"
| "jsLessEq NegInfinity NegInfinity = True"
| "jsLessEq NegInfinity PosInfinity = True"
| "jsLessEq (Finite x) PosInfinity = True"
| "jsLessEq PosInfinity PosInfinity = True"
| "jsLessEq a b = False"

text \<open>The number of binary digits of a positive integer.\<close>

function bitLength :: "int \<Rightarrow> nat" where
  "bitLength n = (if n \<le> 0 then 0 else Suc (bitLength (n div 2)))"
  by pat_completeness auto
termination
  by (relation "measure nat") auto

declare bitLength.simps [simp del]

text \<open>
  The Number value of a mathematical integer: the nearest double, a tie going to the
  even significand of 53 bits, and an infinity once the rounded magnitude reaches
  \<open>2^1024\<close>.
\<close>

definition toNumber :: "int \<Rightarrow> number" where
  "toNumber i =
     (let m = \<bar>i\<bar>;
          e = bitLength m - 53;
          q = m div 2 ^ e;
          r = m mod 2 ^ e;
          up = (2 * r > 2 ^ e \<or> (2 * r = 2 ^ e \<and> odd q));
          rounded = (if up then q + 1 else q) * 2 ^ e
      in if rounded \<ge> 2 ^ 1024 then (if i < 0 then NegInfinity else PosInfinity)
         else Finite (of_int (if i < 0 then - rounded else rounded)))"

section \<open>parseInt\<close>

text \<open>
  \<open>parseInt(string)\<close> without a radix: leading white space is skipped, a sign is read, a
  prefix \<open>0x\<close> or \<open>0X\<close> selects radix 16, and the longest run of digits of the radix is
  the numeral, whose Number value is the result; with no digit the result is \<open>NaN\<close>.
  Strings are sequences of code units below 256 here.
\<close>

definition isWhiteSpace :: "char \<Rightarrow> bool" where
  "isWhiteSpace c = ((of_char c :: nat) \<in> {9, 10, 11, 12, 13, 32, 160})"

definition hexValue :: "char \<Rightarrow> int option" where
  "hexValue c =
     (let n = of_char c :: nat in
      if 48 \<le> n \<and> n \<le> 57 then Some (int n - 48)
      else if 97 \<le> n \<and> n \<le> 102 then Some (int n - 87)
      else if 65 \<le> n \<and> n \<le> 70 then Some (int n - 55)
      else None)"

definition radixDigit :: "int \<Rightarrow> char \<Rightarrow> bool" where
  "radixDigit radix c = (case hexValue c of Some v \<Rightarrow> v < radix | None \<Rightarrow> False)"

definition parseInt :: "string \<Rightarrow> number" where
  "parseInt inputString =
     (let s = dropWhile isWhiteSpace inputString;
          negative = (s \<noteq> [] \<and> hd s = CHR ''-'');
          s1 = (if s \<noteq> [] \<and> (hd s = CHR ''+'' \<or> hd s = CHR ''-'') then tl s else s);
          hex = (take 2 s1 = ''0x'' \<or> take 2 s1 = ''0X'');
          radix = (if hex then 16 else 10);
          s2 = (if hex then drop 2 s1 else s1);
          z = takeWhile (radixDigit radix) s2;
          mathInt = foldl (\<lambda>n c. radix * n + the (hexValue c)) 0 z
      in if z = [] then NaN else toNumber (if negative then - mathInt else mathInt))"

text \<open>\<open>x || d\<close> on a number: \<open>NaN\<close> and zero are falsy.\<close>

definition orDefault :: "number \<Rightarrow> number \<Rightarrow> number" where
  "orDefault x d = (if x = NaN \<or> x = Finite 0 then d else x)"

section \<open>autoAssignGroups\<close>

definition groupLetters :: "string list" where
  "groupLetters = [''A'', ''B'', ''C'', ''D'', ''E'', ''F'', ''G'', ''H'']"

text \<open>\<open>xs.slice(0, end)\<close>: a negative \<open>end\<close> counts from the end of the array.\<close>

definition slice0 :: "'a list \<Rightarrow> int \<Rightarrow> 'a list" where
  "slice0 xs end' =
     (if end' < 0 then take (nat (int (length xs) + end')) xs else take (nat end') xs)"

text \<open>
  \<open>a % b\<close> on integers: the sign of the result is the sign of \<open>a\<close>, and \<open>a % 0\<close> is
  \<open>NaN\<close> (\<open>None\<close>).
\<close>

definition jsRemainder :: "int \<Rightarrow> int \<Rightarrow> int option" where
  "jsRemainder a b = (if b = 0 then None else Some (sgn a * (\<bar>a\<bar> mod \<bar>b\<bar>)))"

text \<open>\<open>xs[k]\<close> is \<open>undefined\<close> (\<open>None\<close>) when \<open>k\<close> is not an index of \<open>xs\<close>.\<close>

definition elementAt :: "'a list \<Rightarrow> int option \<Rightarrow> 'a option" where
  "elementAt xs k =
     (case k of None \<Rightarrow> None
      | Some i \<Rightarrow> if 0 \<le> i \<and> i < int (length xs) then Some (xs ! nat i) else None)"

text \<open>The template literal \<^verbatim>\<open>`Group ${x}`\<close>.\<close>

definition groupLabel :: "string option \<Rightarrow> string" where
  "groupLabel x = ''Group '' @ (case x of None \<Rightarrow> ''undefined'' | Some s \<Rightarrow> s)"

text \<open>
  The handler of the field \<open># of Groups\<close>:
  \<open>setNumberOfGroups(parseInt(e.target.value) || 4)\<close>.
\<close>

definition onNumberOfGroupsChange :: "string \<Rightarrow> number" where
  "onNumberOfGroupsChange v = orDefault (parseInt v) (Finite 4)"

text \<open>
  \<open>autoAssignGroups\<close> up to its \<open>upsert\<close>, for a group count that is an integer: the
  result is the list \<open>updates\<close>, which becomes the local list of entries and whose
  fields make up the payload.
\<close>

definition autoAssignGroups ::
  "string \<Rightarrow> int \<Rightarrow> PointsTableEntry list \<Rightarrow> PointsTableEntry list outcome" where
  "autoAssignGroups selectedTournament numberOfGroups pointsEntries =
     (if selectedTournament = [] \<or> pointsEntries = [] then Skipped
      else
        (let groups = slice0 groupLetters numberOfGroups;
             updates =
               map (\<lambda>(index, entry).
                      entry\<lparr> group_name :=
                        GroupName (groupLabel
                          (elementAt groups (jsRemainder (int index) numberOfGroups))) \<rparr>)
                   (enumerate 0 pointsEntries)
         in Upsert updates))"

section \<open>The points table shown to participants\<close>

text \<open>
  The values of the parameter \<open>size: any\<close>, by their type. An object (an array and a
  function are objects) is given by what \<open>String(size)\<close> does with it: it returns a
  string, or the conversion throws.
\<close>

datatype jsValue =
    JSUndefined | JSNull | JSBoolean bool | JSNumber number | JSBigInt int
  | JSString string | JSSymbol string | JSObject "failure + string"

definition toLowerCase :: "string \<Rightarrow> string" where
  "toLowerCase s =
     map (\<lambda>c. let n = of_char c :: nat in
               if (65 \<le> n \<and> n \<le> 90) \<or> (192 \<le> n \<and> n \<le> 222 \<and> n \<noteq> 215)
               then char_of (n + 32) else c) s"

definition trim :: "string \<Rightarrow> string" where
  "trim s = rev (dropWhile isWhiteSpace (rev (dropWhile isWhiteSpace s)))"

fun startsWith :: "string \<Rightarrow> string \<Rightarrow> bool" where
  "startsWith s [] = True"
| "startsWith [] (p # ps) = False"
| "startsWith (c # cs) (p # ps) = (c = p \<and> startsWith cs ps)"

fun stringIncludes :: "string \<Rightarrow> string \<Rightarrow> bool" where
  "stringIncludes [] pat = (pat = [])"
| "stringIncludes (c # cs) pat = (startsWith (c # cs) pat \<or> stringIncludes cs pat)"

text \<open>The decimal numeral of a non-negative integer, and \<open>String\<close> of a BigInt.\<close>

function decimalDigits :: "int \<Rightarrow> string" where
  "decimalDigits n =
     (if n < 10 then [char_of (48 + n)]
      else decimalDigits (n div 10) @ [char_of (48 + n mod 10)])"
  by pat_completeness auto
termination
  by (relation "measure nat") auto

declare decimalDigits.simps [simp del]

definition bigIntToString :: "int \<Rightarrow> string" where
  "bigIntToString i = (if i < 0 then CHR ''-'' # decimalDigits (- i) else decimalDigits i)"

text \<open>The part of \<open>parseTeamSize\<close> after \<open>String(size)\<close>.\<close>

definition sizeFromString :: "string \<Rightarrow> number" where
  "sizeFromString str =
     (let sizeStr = trim (toLowerCase str) in
      if stringIncludes sizeStr ''duo'' \<or> sizeStr = ''2'' then Finite 2
      else if stringIncludes sizeStr ''squad'' \<or> sizeStr = ''4'' then Finite 4
      else if stringIncludes sizeStr ''5'' \<or> stringIncludes sizeStr ''five'' then Finite 5
      else (let num = parseInt sizeStr in if num = NaN then Finite 1 else num))"

text \<open>
  \<open>parseTeamSize\<close>: a number is returned as it is, a falsy value gives 1, and any other
  value goes through \<open>String(size)\<close>, whose exception, if it throws, leaves the function.
\<close>

fun parseTeamSize :: "jsValue \<Rightarrow> failure + number" where
  "parseTeamSize (JSNumber n) = Inr n"
| "parseTeamSize JSUndefined = Inr (Finite 1)"
| "parseTeamSize JSNull = Inr (Finite 1)"
| "parseTeamSize (JSBoolean b) = Inr (if \<not> b then Finite 1 else sizeFromString ''true'')"
| "parseTeamSize (JSBigInt i) =
     Inr (if i = 0 then Finite 1 else sizeFromString (bigIntToString i))"
| "parseTeamSize (JSString s) = Inr (if s = [] then Finite 1 else sizeFromString s)"
| "parseTeamSize (JSSymbol description) =
     Inr (sizeFromString (''Symbol('' @ description @ '')''))"
| "parseTeamSize (JSObject conversion) =
     (case conversion of Inl err \<Rightarrow> Inl err | Inr str \<Rightarrow> Inr (sizeFromString str))"

text \<open>
  Which of its \<open>return\<close> statements the component \<open>PointsTable\<close> takes; an exception
  thrown while it renders leaves the component.
\<close>

datatype view = RendersNothing | LoadingCard | EmptyStateCard | GroupCards | SingleTable

definition truthyGroupName :: "groupName \<Rightarrow> bool" where
  "truthyGroupName g = (case g of GroupName s \<Rightarrow> s \<noteq> [] | _ \<Rightarrow> False)"

definition PointsTable :: "jsValue \<Rightarrow> bool \<Rightarrow> PointsTableEntry list \<Rightarrow> failure + view" where
  "PointsTable teamSize loading pointsEntries =
     (case parseTeamSize teamSize of
        Inl err \<Rightarrow> Inl err
      | Inr teamSizeNum \<Rightarrow>
          (let isTeamTournament = jsGreater teamSizeNum (Finite 1);
               is5ManTournament = (teamSizeNum = Finite 5)
           in if \<not> isTeamTournament then Inr RendersNothing
              else if loading then Inr LoadingCard
              else if pointsEntries = [] then Inr EmptyStateCard
              else
                (case (if is5ManTournament then reduceGroups group_name [] pointsEntries
                       else Inr []) of
                   Inl err \<Rightarrow> Inl err
                 | Inr groupedEntries \<Rightarrow>
                     (let hasGroups = (is5ManTournament \<and> groupedEntries \<noteq> []
                             \<and> list_ex (\<lambda>entry. truthyGroupName (group_name entry))
                                   pointsEntries)
                      in if hasGroups then Inr GroupCards else Inr SingleTable))))"

text \<open>
  The later version of the component sorts each group in place with the three-key
  comparison function and numbers it: \<open>entry.position_in_group = index + 1\<close>.
\<close>

definition rankGroupForDisplay :: "PointsTableEntry list \<Rightarrow> PointsTableEntry list" where
  "rankGroupForDisplay entries =
     map (\<lambda>(index, entry). entry\<lparr> position_in_group := Some (int index + 1) \<rparr>)
         (enumerate 0 (sortBy compareForDisplay entries))"

section \<open>Notions used in the statements\<close>

text \<open>The sort key that \<open>compareEntries\<close> induces: points, then kills, both descending.\<close>

definition entryKey :: "PointsTableEntry \<Rightarrow> int \<times> int" where
  "entryKey e = (- points e, - kills e)"

text \<open>The array an accumulator holds under a key (empty when it does not own the key).\<close>

definition entriesOf :: "'a groups \<Rightarrow> string \<Rightarrow> 'a list" where
  "entriesOf acc g = (case map_of acc g of Some es \<Rightarrow> es | None \<Rightarrow> [])"

text \<open>The group an update belongs to, and the overall position a payload gives an id.\<close>

definition updateGroupKey :: "PositionUpdate \<Rightarrow> string" where
  "updateGroupKey u = (case u_group_name u of Some g \<Rightarrow> groupKey g | None \<Rightarrow> ''Ungrouped'')"

definition positionOf :: "PositionUpdate list \<Rightarrow> string \<Rightarrow> int option" where
  "positionOf updates i = map_option u_position (find (\<lambda>u. u_id u = i) updates)"

text \<open>The update that carries an entry's fields, apart from the two positions.\<close>

definition carries :: "PositionUpdate \<Rightarrow> PointsTableEntry \<Rightarrow> bool" where
  "carries u e =
     (u_id u = id' e \<and> u_tournament_id u = tournament_id e \<and> u_team_id u = team_id e
      \<and> u_team_name u = team_name e \<and> u_points u = points e \<and> u_kills u = kills e
      \<and> u_wins u = wins e
      \<and> (case u_group_name u of None \<Rightarrow> True | Some g \<Rightarrow> g = group_name e))"

text \<open>Reading off what was handed to \<open>upsert\<close>.\<close>

definition upserted :: "'a outcome \<Rightarrow> 'a option" where
  "upserted r = (case r of Upsert x \<Rightarrow> Some x | _ \<Rightarrow> None)"

text \<open>A row with the given id, counters and group name, for concrete inputs.\<close>

definition row :: "string \<Rightarrow> int \<Rightarrow> int \<Rightarrow> int \<Rightarrow> groupName \<Rightarrow> PointsTableEntry" where
  "row i p k w g =
     \<lparr> id' = i, tournament_id = ''t1'', team_id = ''team-'' @ i, team_name = ''Team '' @ i,
       points = p, position = 1, kills = k, wins = w, group_name = g,
       position_in_group = None, created_at = ''2025-10-25'', updated_at = ''2025-10-25'' \<rparr>"

definition sevenRows :: "PointsTableEntry list" where
  "sevenRows =
     map (\<lambda>i. row i 0 0 0 NullGroupName) [''1'', ''2'', ''3'', ''4'', ''5'', ''6'', ''7'']"

definition nineRows :: "PointsTableEntry list" where
  "nineRows =
     map (\<lambda>i. row i 0 0 0 NullGroupName)
       [''a'', ''b'', ''c'', ''d'', ''e'', ''f'', ''g'', ''h'', ''i'']"

definition fourRows :: "PointsTableEntry list" where
  "fourRows = [row ''a'' 10 2 1 (GroupName ''X''), row ''b'' 10 3 0 (GroupName ''X''),
               row ''c'' 5 9 9 (GroupName ''Y''), row ''d'' 7 1 0 (GroupName ''Y'')]"

definition fourRowsUpdates :: "PositionUpdate list" where
  "fourRowsUpdates =
     [\<lparr>u_id = ''b'', u_tournament_id = ''t1'', u_team_id = ''team-b'', u_team_name = ''Team b'',
        u_points = 10, u_kills = 3, u_wins = 0, u_group_name = Some (GroupName ''X''),
        u_position = 1, u_position_in_group = Some 1\<rparr>,
      \<lparr>u_id = ''a'', u_tournament_id = ''t1'', u_team_id = ''team-a'', u_team_name = ''Team a'',
        u_points = 10, u_kills = 2, u_wins = 1, u_group_name = Some (GroupName ''X''),
        u_position = 2, u_position_in_group = Some 2\<rparr>,
      \<lparr>u_id = ''d'', u_tournament_id = ''t1'', u_team_id = ''team-d'', u_team_name = ''Team d'',
        u_points = 7, u_kills = 1, u_wins = 0, u_group_name = Some (GroupName ''Y''),
        u_position = 3, u_position_in_group = Some 1\<rparr>,
      \<lparr>u_id = ''c'', u_tournament_id = ''t1'', u_team_id = ''team-c'', u_team_name = ''Team c'',
        u_points = 5, u_kills = 9, u_wins = 9, u_group_name = Some (GroupName ''Y''),
        u_position = 4, u_position_in_group = Some 2\<rparr>]"


definition movedRows :: "PointsTableEntry list" where
  "movedRows = [row ''a'' 10 2 1 (GroupName ''X''), row ''b'' 10 3 0 (GroupName ''X''),
                row ''c'' 5 9 9 (GroupName ''Y''), row ''d'' 7 1 0 (GroupName ''Z''),
                row ''e'' 8 0 0 (GroupName ''Z'')]"

section \<open>Sorting: permutation, order, stability\<close>

lemma insertBy_eq_insort_key:
  "(\<And>a b. cmp a b \<le> 0 \<longleftrightarrow> f a \<le> f b) \<Longrightarrow> insertBy cmp x xs = insort_key f x xs"
  by (induction xs) simp_all

lemma sortBy_eq_sort_key:
  assumes "\<And>a b. cmp a b \<le> 0 \<longleftrightarrow> f a \<le> f b"
  shows "sortBy cmp xs = sort_key f xs"
  by (induction xs) (simp_all add: sortBy_def insertBy_eq_insort_key[OF assms])

lemma compareEntries_le: "compareEntries a b \<le> 0 \<longleftrightarrow> entryKey a \<le> entryKey b"
  by (auto simp: compareEntries_def entryKey_def less_eq_prod_def)

lemma sortBy_compareEntries: "sortBy compareEntries xs = sort_key entryKey xs"
  by (rule sortBy_eq_sort_key) (rule compareEntries_le)

lemma mset_sortBy_compareEntries: "mset (sortBy compareEntries xs) = mset xs"
  by (simp add: sortBy_compareEntries)

lemma set_sortBy_compareEntries: "set (sortBy compareEntries xs) = set xs"
  by (simp add: sortBy_compareEntries)



lemma sortBy_compareEntries_sorted: "sorted (map entryKey (sortBy compareEntries xs))"
  by (simp add: sortBy_compareEntries)

section \<open>findIndex on a list without repeated ids\<close>

lemma findIndexFrom_first:
  "P x \<Longrightarrow> \<forall>u\<in>set us. \<not> P u \<Longrightarrow> findIndexFrom i P (us @ x # vs) = i + int (length us)"
  by (induction us arbitrary: i) simp_all

lemma findIndex_first:
  "P x \<Longrightarrow> \<forall>u\<in>set us. \<not> P u \<Longrightarrow> findIndex P (us @ x # vs) = int (length us)"
  by (simp add: findIndex_def findIndexFrom_first)

lemma findIndex_distinct_append:
  assumes "distinct (map f (us @ x # vs))"
  shows "findIndex (\<lambda>e. f e = f x) (us @ x # vs) = int (length us)"
proof (rule findIndex_first)
  show "f x = f x" by simp
  show "\<forall>u\<in>set us. f u \<noteq> f x"
  proof
    fix u assume "u \<in> set us"
    then have "f u \<in> f ` set us" by simp
    moreover from assms have "f x \<notin> f ` set us" by simp
    ultimately show "f u \<noteq> f x" by metis
  qed
qed

lemma findIndex_nth:
  assumes "distinct (map f xs)" and "k < length xs"
  shows "findIndex (\<lambda>e. f e = f (xs ! k)) xs = int k"
proof -
  have xs: "xs = take k xs @ xs ! k # drop (Suc k) xs"
    using assms(2) by (rule id_take_nth_drop)
  have "findIndex (\<lambda>e. f e = f (xs ! k)) (take k xs @ xs ! k # drop (Suc k) xs)
          = int (length (take k xs))"
    using assms(1) xs by (intro findIndex_distinct_append) simp
  then show ?thesis using xs assms(2) by simp
qed

section \<open>What the reduce builds\<close>

lemma map_fst_pushEntry: "map fst (pushEntry acc g e) = map fst acc"
  by (induction acc g e rule: pushEntry.induct) simp_all

lemma keys_pushEntry: "fst ` set (pushEntry acc g e) = fst ` set acc"
  using map_fst_pushEntry[of acc g e] by (metis set_map)

lemma map_of_pushEntry:
  "map_of (pushEntry acc g e) k =
     (if k = g then map_option (\<lambda>es. es @ [e]) (map_of acc g) else map_of acc k)"
  by (induction acc g e rule: pushEntry.induct) auto

lemma mset_concat_pushEntry:
  "map_of acc g = Some es \<Longrightarrow>
   mset (concat (map snd (pushEntry acc g e))) = mset (concat (map snd acc)) + {#e#}"
  by (induction acc g e rule: pushEntry.induct) (auto split: if_splits)

lemma groupStep_keys:
  "groupStep gn acc e = Inr acc' \<Longrightarrow> distinct (map fst acc) \<Longrightarrow> distinct (map fst acc')"
  by (auto simp: groupStep_def Let_def map_of_eq_None_iff map_fst_pushEntry
           split: option.splits if_splits)

lemma groupStep_entriesOf:
  "groupStep gn acc e = Inr acc' \<Longrightarrow>
   entriesOf acc' k = entriesOf acc k @ (if groupKey (gn e) = k then [e] else [])"
  by (auto simp: groupStep_def Let_def entriesOf_def map_of_pushEntry
           split: option.splits if_splits)

lemma groupStep_mset:
  "groupStep gn acc e = Inr acc' \<Longrightarrow>
   mset (concat (map snd acc')) = mset (concat (map snd acc)) + {#e#}"
  by (auto simp: groupStep_def Let_def mset_concat_pushEntry split: option.splits if_splits)

lemma groupStep_ok:
  "groupKey (gn e) \<notin> set objectPrototypeKeys \<Longrightarrow> \<exists>acc'. groupStep gn acc e = Inr acc'"
  by (auto simp: groupStep_def Let_def split: option.splits)

lemma reduceGroups_ConsE:
  assumes "reduceGroups gn acc (e # es) = Inr acc'"
  obtains acc1 where "groupStep gn acc e = Inr acc1" and "reduceGroups gn acc1 es = Inr acc'"
  using assms by (auto split: sum.splits)

lemma reduceGroups_keys:
  "reduceGroups gn acc es = Inr acc' \<Longrightarrow> distinct (map fst acc) \<Longrightarrow> distinct (map fst acc')"
proof (induction es arbitrary: acc)
  case Nil
  then show ?case by simp
next
  case (Cons e es)
  from Cons.prems(1) obtain acc1 where s: "groupStep gn acc e = Inr acc1"
    and r: "reduceGroups gn acc1 es = Inr acc'"
    by (rule reduceGroups_ConsE)
  show ?case using Cons.IH[OF r] groupStep_keys[OF s Cons.prems(2)] by simp
qed

lemma reduceGroups_entriesOf:
  "reduceGroups gn acc es = Inr acc' \<Longrightarrow>
   entriesOf acc' k = entriesOf acc k @ filter (\<lambda>e. groupKey (gn e) = k) es"
proof (induction es arbitrary: acc)
  case Nil
  then show ?case by simp
next
  case (Cons e es)
  from Cons.prems obtain acc1 where s: "groupStep gn acc e = Inr acc1"
    and r: "reduceGroups gn acc1 es = Inr acc'"
    by (rule reduceGroups_ConsE)
  show ?case using Cons.IH[OF r] groupStep_entriesOf[OF s, of k] by simp
qed

lemma reduceGroups_mset:
  "reduceGroups gn acc es = Inr acc' \<Longrightarrow>
   mset (concat (map snd acc')) = mset (concat (map snd acc)) + mset es"
proof (induction es arbitrary: acc)
  case Nil
  then show ?case by simp
next
  case (Cons e es)
  from Cons.prems obtain acc1 where s: "groupStep gn acc e = Inr acc1"
    and r: "reduceGroups gn acc1 es = Inr acc'"
    by (rule reduceGroups_ConsE)
  show ?case using Cons.IH[OF r] groupStep_mset[OF s] by simp
qed

lemma reduceGroups_ok:
  "\<forall>e\<in>set es. groupKey (gn e) \<notin> set objectPrototypeKeys \<Longrightarrow>
   \<exists>acc'. reduceGroups gn acc es = Inr acc'"
proof (induction es arbitrary: acc)
  case Nil
  then show ?case by simp
next
  case (Cons e es)
  then obtain acc1 where "groupStep gn acc e = Inr acc1"
    using groupStep_ok[of gn e acc] by auto
  then show ?case using Cons by auto
qed

section \<open>Object.entries\<close>

lemma mset_objectEntries: "mset (objectEntries acc) = mset acc"
  by (simp add: objectEntries_def)

lemma set_objectEntries: "set (objectEntries acc) = set acc"
  using mset_objectEntries[of acc] by (metis set_mset_mset)

lemma distinct_keys_objectEntries:
  "distinct (map fst acc) \<Longrightarrow> distinct (map fst (objectEntries acc))"
proof -
  have "mset (map fst (objectEntries acc)) = mset (map fst acc)"
    by (simp add: mset_objectEntries)
  then show "distinct (map fst acc) \<Longrightarrow> distinct (map fst (objectEntries acc))"
    by (metis mset_eq_imp_distinct_iff)
qed

lemma map_of_objectEntries:
  "distinct (map fst acc) \<Longrightarrow> map_of (objectEntries acc) = map_of acc"
  using map_of_inject_set[of "objectEntries acc" acc]
  by (simp add: distinct_keys_objectEntries set_objectEntries)

lemma mset_concat_cong:
  assumes "mset xs = mset ys"
  shows "mset (concat (map f xs)) = mset (concat (map f ys))"
proof -
  have "mset (concat (map f zs)) = sum_mset (image_mset (\<lambda>z. mset (f z)) (mset zs))" for zs
    by (induction zs) simp_all
  then show ?thesis using assms by simp
qed


section \<open>The updates of one group\<close>


lemma key_groupUpdates:
  "map updateGroupKey (groupUpdates S ge) = map (\<lambda>e. groupKey (group_name e)) (snd ge)"
proof -
  have "map updateGroupKey (map (\<lambda>(index, entry).
            \<lparr> u_id = id' entry,
              u_tournament_id = tournament_id entry,
              u_team_id = team_id entry,
              u_team_name = team_name entry,
              u_points = points entry,
              u_kills = kills entry,
              u_wins = wins entry,
              u_group_name = Some (group_name entry),
              u_position = findIndex (\<lambda>e. id' e = id' entry) S + 1,
              u_position_in_group = Some (int index + 1) \<rparr>) (enumerate n gs))
        = map (\<lambda>e. groupKey (group_name e)) gs" for n gs
    by (induction gs arbitrary: n) (simp_all add: updateGroupKey_def)
  then show ?thesis by (simp add: groupUpdates_def)
qed


lemma carries_groupUpdates: "list_all2 carries (groupUpdates S ge) (snd ge)"
proof -
  have "list_all2 carries (map (\<lambda>(index, entry).
            \<lparr> u_id = id' entry,
              u_tournament_id = tournament_id entry,
              u_team_id = team_id entry,
              u_team_name = team_name entry,
              u_points = points entry,
              u_kills = kills entry,
              u_wins = wins entry,
              u_group_name = Some (group_name entry),
              u_position = findIndex (\<lambda>e. id' e = id' entry) S + 1,
              u_position_in_group = Some (int index + 1) \<rparr>) (enumerate n gs)) gs" for n gs
    by (induction gs arbitrary: n) (simp_all add: carries_def)
  then show ?thesis by (simp add: groupUpdates_def)
qed

section \<open>The updates of the other branch\<close>


lemma carries_overallUpdates: "list_all2 carries (overallUpdates S) S"
proof -
  have "list_all2 carries (map (\<lambda>(index, entry).
            \<lparr> u_id = id' entry,
              u_tournament_id = tournament_id entry,
              u_team_id = team_id entry,
              u_team_name = team_name entry,
              u_points = points entry,
              u_kills = kills entry,
              u_wins = wins entry,
              u_group_name = None,
              u_position = int index + 1,
              u_position_in_group = None \<rparr>) (enumerate n gs)) gs" for n gs
    by (induction gs arbitrary: n) (simp_all add: carries_def)
  then show ?thesis by (simp add: overallUpdates_def)
qed


section \<open>autoCalculatePositions, by branch\<close>

lemma autoCalculatePositions_ungrouped:
  assumes "autoCalculatePositions sel False es = Upsert U"
  shows "U = overallUpdates (sortBy compareEntries es)"
  using assms by (simp add: autoCalculatePositions_def Let_def split: if_splits)

lemma autoCalculatePositions_grouped:
  assumes "autoCalculatePositions sel True es = Upsert U"
  obtains G where "reduceGroups group_name [] (sortBy compareEntries es) = Inr G"
    and "U = concat (map (groupUpdates (sortBy compareEntries es)) (objectEntries G))"
  using assms by (auto simp: autoCalculatePositions_def Let_def split: if_splits sum.splits)

lemma autoCalculatePositions_total:
  assumes "sel \<noteq> []" and "es \<noteq> []"
    and "b \<Longrightarrow> \<forall>e\<in>set es. groupKey (group_name e) \<notin> set objectPrototypeKeys"
  shows "\<exists>U. autoCalculatePositions sel b es = Upsert U"
proof (cases b)
  case False
  with assms(1,2) show ?thesis by (simp add: autoCalculatePositions_def Let_def)
next
  case True
  with assms(3) have "\<forall>e\<in>set (sortBy compareEntries es).
      groupKey (group_name e) \<notin> set objectPrototypeKeys"
    by (simp add: set_sortBy_compareEntries)
  then obtain G where "reduceGroups group_name [] (sortBy compareEntries es) = Inr G"
    using reduceGroups_ok[of "sortBy compareEntries es" group_name "[]"] by blast
  with True assms(1,2) show ?thesis by (simp add: autoCalculatePositions_def Let_def)
qed

text \<open>
  The one run with a tournament selected and a non-empty list that hands nothing to
  \<open>upsert\<close>: a group label that names an inherited property of objects makes the
  \<open>reduce\<close> of the grouped branch throw.
\<close>

lemma inherited_label_raises:
  "autoCalculatePositions ''t1'' True [row ''a'' 1 0 0 (GroupName ''constructor'')]
     = Raised TypeError"
  by code_simp

section \<open>The groups of a sorted list\<close>

lemma grouped_members:
  assumes "reduceGroups group_name [] S = Inr G" and "(g, gs) \<in> set G"
  shows "gs = filter (\<lambda>e. groupKey (group_name e) = g) S"
proof -
  have d: "distinct (map fst G)"
    using reduceGroups_keys[OF assms(1)] by simp
  then have "map_of G g = Some gs" using assms(2) by simp
  then have "entriesOf G g = gs" by (simp add: entriesOf_def)
  then show ?thesis using reduceGroups_entriesOf[OF assms(1), of g] by (simp add: entriesOf_def)
qed

lemma grouped_entriesOf:
  assumes "reduceGroups group_name [] S = Inr G"
  shows "entriesOf G g = filter (\<lambda>e. groupKey (group_name e) = g) S"
  using reduceGroups_entriesOf[OF assms, of g] by (simp add: entriesOf_def)

lemma grouped_mset:
  assumes "reduceGroups group_name [] S = Inr G"
  shows "mset (concat (map snd (objectEntries G))) = mset S"
proof -
  have "mset (concat (map snd (objectEntries G))) = mset (concat (map snd G))"
    by (rule mset_concat_cong) (rule mset_objectEntries)
  then show ?thesis using reduceGroups_mset[OF assms] by simp
qed

lemma filter_concat_groups:
  assumes "distinct (map fst L)"
    and "\<And>ge u. ge \<in> set L \<Longrightarrow> u \<in> set (F ge) \<Longrightarrow> key u = fst ge"
  shows "filter (\<lambda>u. key u = g) (concat (map F L)) =
           (case map_of L g of Some gs \<Rightarrow> F (g, gs) | None \<Rightarrow> [])"
  using assms
proof (induction L)
  case Nil
  show ?case by simp
next
  case (Cons ge L)
  obtain k gs where ge: "ge = (k, gs)" by (cases ge)
  have IH: "filter (\<lambda>u. key u = g) (concat (map F L)) =
           (case map_of L g of Some gs \<Rightarrow> F (g, gs) | None \<Rightarrow> [])"
    using Cons by simp
  have here: "\<forall>u\<in>set (F (k, gs)). key u = k"
    using Cons.prems(2)[of "(k, gs)"] ge by simp
  show ?case
  proof (cases "k = g")
    case True
    then have "g \<notin> fst ` set L" using Cons.prems(1) ge by simp
    then have "map_of L g = None" by (simp add: map_of_eq_None_iff)
    moreover have "filter (\<lambda>u. key u = g) (F (k, gs)) = F (k, gs)"
      using here True by simp
    ultimately show ?thesis using IH ge True by simp
  next
    case False
    then have "filter (\<lambda>u. key u = g) (F (k, gs)) = []"
      using here by simp
    then show ?thesis using IH ge False by simp
  qed
qed

lemma grouped_chunk:
  assumes "autoCalculatePositions sel True es = Upsert U"
  shows "filter (\<lambda>u. updateGroupKey u = g) U =
           groupUpdates (sortBy compareEntries es)
             (g, filter (\<lambda>e. groupKey (group_name e) = g) (sortBy compareEntries es))"
proof -
  let ?S = "sortBy compareEntries es"
  from assms obtain G where G: "reduceGroups group_name [] ?S = Inr G"
    and U: "U = concat (map (groupUpdates ?S) (objectEntries G))"
    by (rule autoCalculatePositions_grouped)
  have d: "distinct (map fst G)" using reduceGroups_keys[OF G] by simp
  have keys: "key_u = fst ge" if "ge \<in> set (objectEntries G)"
      and "u \<in> set (groupUpdates ?S ge)" and "key_u = updateGroupKey u" for ge u key_u
  proof -
    obtain k gs where ge: "ge = (k, gs)" by (cases ge)
    with that(1) have "(k, gs) \<in> set G" by (simp add: set_objectEntries)
    then have gs: "gs = filter (\<lambda>e. groupKey (group_name e) = k) ?S"
      by (rule grouped_members[OF G])
    from that(2) have "updateGroupKey u \<in> set (map updateGroupKey (groupUpdates ?S ge))"
      by simp
    then have "updateGroupKey u \<in> (\<lambda>e. groupKey (group_name e)) ` set gs"
      by (simp add: key_groupUpdates ge)
    with gs show ?thesis using that(3) ge by auto
  qed
  have "filter (\<lambda>u. updateGroupKey u = g) U =
          (case map_of (objectEntries G) g of Some gs \<Rightarrow> groupUpdates ?S (g, gs) | None \<Rightarrow> [])"
    unfolding U
    by (rule filter_concat_groups) (simp_all add: distinct_keys_objectEntries d keys)
  also have "\<dots> = groupUpdates ?S (g, entriesOf G g)"
    by (simp add: map_of_objectEntries[OF d] entriesOf_def groupUpdates_def split: option.splits)
  finally show ?thesis by (simp add: grouped_entriesOf[OF G])
qed


section \<open>The positions that autoCalculatePositions assigns\<close>


lemma distinct_ids_sorted:
  "distinct (map id' es) \<Longrightarrow> distinct (map id' (sortBy compareEntries es))"
proof -
  have "mset (map id' (sortBy compareEntries es)) = mset (map id' es)"
    by (simp add: mset_sortBy_compareEntries)
  then show "distinct (map id' es) \<Longrightarrow> distinct (map id' (sortBy compareEntries es))"
    by (metis mset_eq_imp_distinct_iff)
qed




lemma fourRows_run: "autoCalculatePositions ''t1'' True fourRows = Upsert fourRowsUpdates"
  by code_simp









lemma list_all2_concat_groups:
  "list_all2 carries (concat (map (groupUpdates S) L)) (concat (map snd L))"
  by (induction L) (simp_all add: carries_groupUpdates list_all2_appendI)

lemma list_all2_left: "list_all2 R xs ys \<Longrightarrow> x \<in> set xs \<Longrightarrow> \<exists>y\<in>set ys. R x y"
  by (induction rule: list_all2_induct) auto

lemma list_all2_right: "list_all2 R xs ys \<Longrightarrow> y \<in> set ys \<Longrightarrow> \<exists>x\<in>set xs. R x y"
  by (induction rule: list_all2_induct) auto

lemma updates_related:
  assumes "autoCalculatePositions sel b es = Upsert U"
  obtains T where "list_all2 carries U T" and "mset T = mset es"
proof (cases b)
  case False
  with assms have "U = overallUpdates (sortBy compareEntries es)"
    using autoCalculatePositions_ungrouped by simp
  then have "list_all2 carries U (sortBy compareEntries es)"
    by (simp add: carries_overallUpdates)
  then show ?thesis using that mset_sortBy_compareEntries by blast
next
  case True
  let ?S = "sortBy compareEntries es"
  from assms True have r: "autoCalculatePositions sel True es = Upsert U" by simp
  from r obtain G where G: "reduceGroups group_name [] ?S = Inr G"
    and U: "U = concat (map (groupUpdates ?S) (objectEntries G))"
    by (rule autoCalculatePositions_grouped)
  have "list_all2 carries U (concat (map snd (objectEntries G)))"
    unfolding U by (rule list_all2_concat_groups)
  moreover have "mset (concat (map snd (objectEntries G))) = mset es"
    using grouped_mset[OF G] by (simp add: mset_sortBy_compareEntries)
  ultimately show ?thesis using that by blast
qed

text \<open>
  Claim C9. An update has no other keys than the carried fields and the two positions,
  and the update set that \<open>autoCalculatePositions\<close> produces has one update per entry:
  every update carries the id, tournament, team, team name, points, kills and wins of an
  entry, with that entry's group name when the key is written at all, and every entry
  has such an update.
\<close>

theorem updates_carry_entries:
  assumes "autoCalculatePositions selectedTournament supportsGrouping pointsEntries = Upsert updates"
  shows "length updates = length pointsEntries
         \<and> (\<forall>u\<in>set updates. \<exists>e\<in>set pointsEntries. carries u e)
         \<and> (\<forall>e\<in>set pointsEntries. \<exists>u\<in>set updates. carries u e)"
proof -
  from assms obtain T where c: "list_all2 carries updates T" and m: "mset T = mset pointsEntries"
    by (rule updates_related)
  have s: "set T = set pointsEntries" using m by (rule mset_eq_setD)
  have "length updates = length T" using c by (rule list_all2_lengthD)
  also have "\<dots> = length pointsEntries" using m by (metis size_mset)
  finally have "length updates = length pointsEntries" .
  moreover have "\<forall>u\<in>set updates. \<exists>e\<in>set pointsEntries. carries u e"
    using list_all2_left[OF c] s by simp
  moreover have "\<forall>e\<in>set pointsEntries. \<exists>u\<in>set updates. carries u e"
    using list_all2_right[OF c] s by simp
  ultimately show ?thesis by simp
qed

theorem updates_carry_entries_witness:
  "autoCalculatePositions ''t1'' True fourRows = Upsert fourRowsUpdates
   \<and> length fourRowsUpdates = length fourRows
   \<and> (\<exists>u\<in>set fourRowsUpdates. carries u (row ''a'' 10 2 1 (GroupName ''X'')))
   \<and> (\<exists>e\<in>set fourRows. carries (hd fourRowsUpdates) e)"
proof -
  have a: "row ''a'' 10 2 1 (GroupName ''X'') \<in> set fourRows"
    by (simp add: fourRows_def)
  have h: "hd fourRowsUpdates \<in> set fourRowsUpdates"
    by (simp add: fourRowsUpdates_def)
  show ?thesis
    using updates_carry_entries[OF fourRows_run] fourRows_run a h by blast
qed

section \<open>The position an id receives\<close>

lemma findIndexFrom_map:
  "findIndexFrom n (\<lambda>x. f x = i) xs = findIndexFrom n (\<lambda>j. j = i) (map f xs)"
  by (induction xs arbitrary: n) simp_all

lemma findIndex_map: "findIndex (\<lambda>x. f x = i) xs = findIndex (\<lambda>j. j = i) (map f xs)"
  unfolding findIndex_def by (rule findIndexFrom_map)

lemma groupUpdates_position:
  "u \<in> set (groupUpdates S ge) \<Longrightarrow> u_position u = findIndex (\<lambda>x. id' x = u_id u) S + 1"
  by (auto simp: groupUpdates_def)

lemma overallUpdates_position:
  assumes "distinct (map id' S)" and "u \<in> set (overallUpdates S)"
  shows "u_position u = findIndex (\<lambda>x. id' x = u_id u) S + 1"
proof -
  from assms(2) obtain i e where ie: "(i, e) \<in> set (enumerate 0 S)"
    and u: "u_id u = id' e" "u_position u = int i + 1"
    by (auto simp: overallUpdates_def)
  from ie have "i < length S" and "S ! i = e"
    by (simp_all add: in_set_enumerate_eq)
  then have "findIndex (\<lambda>x. id' x = id' e) S = int i"
    using findIndex_nth[OF assms(1), of i] by simp
  with u show ?thesis by simp
qed

lemma position_by_id:
  assumes "autoCalculatePositions sel b es = Upsert U" and "b \<or> distinct (map id' es)"
    and "u \<in> set U"
  shows "u_position u = findIndex (\<lambda>x. id' x = u_id u) (sortBy compareEntries es) + 1"
proof (cases b)
  case False
  with assms(1) have "U = overallUpdates (sortBy compareEntries es)"
    using autoCalculatePositions_ungrouped by simp
  moreover from False assms(2) have "distinct (map id' (sortBy compareEntries es))"
    by (simp add: distinct_ids_sorted)
  ultimately show ?thesis using assms(3) by (simp add: overallUpdates_position)
next
  case True
  with assms(1) have r: "autoCalculatePositions sel True es = Upsert U" by simp
  from r obtain G where "U = concat (map (groupUpdates (sortBy compareEntries es)) (objectEntries G))"
    by (rule autoCalculatePositions_grouped)
  with assms(3) obtain ge where "u \<in> set (groupUpdates (sortBy compareEntries es) ge)"
    by auto
  then show ?thesis by (rule groupUpdates_position)
qed

lemma carries_id: "carries u e \<Longrightarrow> u_id u = id' e"
  by (simp add: carries_def)

lemma update_ids:
  assumes "autoCalculatePositions sel b es = Upsert U"
  shows "u_id ` set U = id' ` set es"
proof -
  from assms obtain T where c: "list_all2 carries U T" and m: "mset T = mset es"
    by (rule updates_related)
  have s: "set T = set es" using m by (rule mset_eq_setD)
  show ?thesis
  proof (intro set_eqI iffI)
    fix i assume "i \<in> u_id ` set U"
    then obtain u where "u \<in> set U" "i = u_id u" by auto
    with list_all2_left[OF c] obtain e where e: "e \<in> set T" "carries u e" by blast
    then have "i = id' e" using \<open>i = u_id u\<close> by (simp add: carries_id)
    with e(1) s show "i \<in> id' ` set es" by simp
  next
    fix i assume "i \<in> id' ` set es"
    then obtain e where "e \<in> set T" "i = id' e" using s by auto
    with list_all2_right[OF c] obtain u where u: "u \<in> set U" "carries u e" by blast
    then have "i = u_id u" using \<open>i = id' e\<close> by (simp add: carries_id)
    with u(1) show "i \<in> u_id ` set U" by simp
  qed
qed

lemma find_Some_member: "find P xs = Some x \<Longrightarrow> x \<in> set xs \<and> P x"
  by (induction xs) (auto split: if_splits)

lemma positionOf_run:
  assumes "autoCalculatePositions sel b es = Upsert U" and "b \<or> distinct (map id' es)"
  shows "positionOf U i =
           (if i \<in> id' ` set es
            then Some (findIndex (\<lambda>x. id' x = i) (sortBy compareEntries es) + 1) else None)"
proof (cases "find (\<lambda>u. u_id u = i) U")
  case None
  then have "i \<notin> u_id ` set U" by (auto simp: find_None_iff)
  then show ?thesis using None update_ids[OF assms(1)] by (simp add: positionOf_def)
next
  case (Some u)
  then have u: "u \<in> set U" "u_id u = i"
    using find_Some_member[of "\<lambda>u. u_id u = i" U u] by simp_all
  then have "i \<in> id' ` set es" using update_ids[OF assms(1)] by auto
  moreover have "u_position u = findIndex (\<lambda>x. id' x = i) (sortBy compareEntries es) + 1"
    using position_by_id[OF assms u(1)] u(2) by simp
  ultimately show ?thesis using Some by (simp add: positionOf_def)
qed

section \<open>Stability\<close>







section \<open>Changing one entry's group name\<close>

lemma insertBy_rel:
  assumes "list_all2 R xs ys" and "R x y"
    and "\<And>a b c d. R a b \<Longrightarrow> R c d \<Longrightarrow> cmp a c = cmp b d"
  shows "list_all2 R (insertBy cmp x xs) (insertBy cmp y ys)"
  using assms(1)
proof (induction rule: list_all2_induct)
  case Nil
  show ?case using assms(2) by simp
next
  case (Cons a as b bs)
  have "cmp x a = cmp y b" using assms(2) Cons.hyps(1) by (rule assms(3))
  then show ?case using Cons assms(2) by simp
qed

lemma sortBy_rel:
  assumes "list_all2 R xs ys"
    and "\<And>a b c d. R a b \<Longrightarrow> R c d \<Longrightarrow> cmp a c = cmp b d"
  shows "list_all2 R (sortBy cmp xs) (sortBy cmp ys)"
  using assms(1)
proof (induction rule: list_all2_induct)
  case Nil
  show ?case by (simp add: sortBy_def)
next
  case (Cons a as b bs)
  have "list_all2 R (insertBy cmp a (sortBy cmp as)) (insertBy cmp b (sortBy cmp bs))"
    using Cons.IH Cons.hyps(1) assms(2) by (rule insertBy_rel)
  then show ?case by (simp add: sortBy_def)
qed

lemma filter_rel:
  assumes "list_all2 R xs ys" and "\<And>a b. R a b \<Longrightarrow> P a \<or> P b \<Longrightarrow> a = b"
  shows "filter P xs = filter P ys"
  using assms(1)
proof (induction rule: list_all2_induct)
  case Nil
  show ?case by simp
next
  case (Cons a as b bs)
  show ?case
  proof (cases "P a \<or> P b")
    case True
    then have "a = b" using Cons.hyps(1) assms(2) by blast
    then show ?thesis using Cons.IH by simp
  next
    case False
    then show ?thesis using Cons.IH by simp
  qed
qed

lemma map_rel:
  assumes "list_all2 R xs ys" and "\<And>a b. R a b \<Longrightarrow> f a = f b"
  shows "map f xs = map f ys"
  using assms(1) by (induction rule: list_all2_induct) (simp_all add: assms(2))

lemma findIndex_same_ids:
  assumes "map id' S = map id' S'"
  shows "findIndex (\<lambda>x. id' x = i) S = findIndex (\<lambda>x. id' x = i) S'"
  by (simp only: findIndex_map[of id' i S] findIndex_map[of id' i S'] assms)

lemma groupUpdates_same_ids:
  assumes "map id' S = map id' S'"
  shows "groupUpdates S ge = groupUpdates S' ge"
  by (simp only: groupUpdates_def findIndex_same_ids[OF assms])

lemma overallUpdates_rel:
  assumes "list_all2 R S S'"
    and "\<And>a b. R a b \<Longrightarrow>
           id' b = id' a \<and> tournament_id b = tournament_id a \<and> team_id b = team_id a
           \<and> team_name b = team_name a \<and> points b = points a \<and> kills b = kills a
           \<and> wins b = wins a"
  shows "overallUpdates S = overallUpdates S'"
proof -
  have "map (\<lambda>(index, entry).
            \<lparr> u_id = id' entry,
              u_tournament_id = tournament_id entry,
              u_team_id = team_id entry,
              u_team_name = team_name entry,
              u_points = points entry,
              u_kills = kills entry,
              u_wins = wins entry,
              u_group_name = None,
              u_position = int index + 1,
              u_position_in_group = None \<rparr>) (enumerate n S)
        = map (\<lambda>(index, entry).
            \<lparr> u_id = id' entry,
              u_tournament_id = tournament_id entry,
              u_team_id = team_id entry,
              u_team_name = team_name entry,
              u_points = points entry,
              u_kills = kills entry,
              u_wins = wins entry,
              u_group_name = None,
              u_position = int index + 1,
              u_position_in_group = None \<rparr>) (enumerate n S')" for n
    using assms(1)
  proof (induction arbitrary: n rule: list_all2_induct)
    case Nil
    show ?case by simp
  next
    case (Cons a as b bs)
    from assms(2)[OF Cons.hyps(1)]
    have "id' b = id' a" "tournament_id b = tournament_id a" "team_id b = team_id a"
      "team_name b = team_name a" "points b = points a" "kills b = kills a" "wins b = wins a"
      by simp_all
    then show ?case using Cons.IH by simp
  qed
  then show ?thesis by (simp add: overallUpdates_def)
qed


text \<open>
  Claim C5. Take a list of entries and the same list with the group name of one entry,
  at index \<open>k\<close>, changed. When \<open>autoCalculatePositions\<close> hands an update set to
  \<open>upsert\<close> for each, every id receives the same overall position in both, and the
  updates of every group other than the entry's old and new group are the same in both,
  group positions included.
\<close>

theorem regrouping_keeps_positions:
  assumes "k < length pointsEntries"
    and "autoCalculatePositions selectedTournament supportsGrouping pointsEntries = Upsert updates"
    and "autoCalculatePositions selectedTournament supportsGrouping
           (pointsEntries[k := (pointsEntries ! k)\<lparr>group_name := g'\<rparr>]) = Upsert updates'"
  shows "(\<forall>i. positionOf updates' i = positionOf updates i)
         \<and> (\<forall>g. g \<noteq> groupKey (group_name (pointsEntries ! k)) \<and> g \<noteq> groupKey g'
               \<longrightarrow> filter (\<lambda>u. updateGroupKey u = g) updates'
                     = filter (\<lambda>u. updateGroupKey u = g) updates)"
proof -
  let ?r = "pointsEntries ! k"
  let ?r' = "?r\<lparr>group_name := g'\<rparr>"
  let ?es' = "pointsEntries[k := ?r']"
  let ?S = "sortBy compareEntries pointsEntries"
  let ?S' = "sortBy compareEntries ?es'"
  define R where "R = (\<lambda>a b. a = b \<or> (a = ?r \<and> b = ?r'))"
  have Rfields: "id' b = id' a \<and> tournament_id b = tournament_id a \<and> team_id b = team_id a
           \<and> team_name b = team_name a \<and> points b = points a \<and> kills b = kills a
           \<and> wins b = wins a" if "R a b" for a b
    using that by (auto simp: R_def)
  have Rcmp: "compareEntries a c = compareEntries b d" if "R a b" "R c d" for a b c d
    using Rfields[OF that(1)] Rfields[OF that(2)] by (simp add: compareEntries_def)
  have es: "list_all2 R pointsEntries ?es'"
    using assms(1) by (auto simp: list_all2_conv_all_nth R_def nth_list_update)
  have S: "list_all2 R ?S ?S'"
    using es Rcmp by (rule sortBy_rel)
  have Rid: "id' a = id' b" if "R a b" for a b
    using Rfields[OF that] by simp
  have ids: "map id' ?S = map id' ?S'"
    using S Rid by (rule map_rel)
  have ids_es: "id' ` set ?es' = id' ` set pointsEntries"
  proof -
    have "map id' pointsEntries = map id' ?es'"
      using es Rid by (rule map_rel)
    then have "set (map id' pointsEntries) = set (map id' ?es')" by simp
    then show ?thesis by (simp only: set_map)
  qed
  show ?thesis
  proof (cases supportsGrouping)
    case False
    have "overallUpdates ?S = overallUpdates ?S'"
      using S Rfields by (rule overallUpdates_rel)
    moreover have "updates = overallUpdates ?S"
      using assms(2) False autoCalculatePositions_ungrouped by simp
    moreover have "updates' = overallUpdates ?S'"
      using assms(3) False autoCalculatePositions_ungrouped by simp
    ultimately show ?thesis by simp
  next
    case True
    have r: "autoCalculatePositions selectedTournament True pointsEntries = Upsert updates"
      using assms(2) True by simp
    have r': "autoCalculatePositions selectedTournament True ?es' = Upsert updates'"
      using assms(3) True by simp
    have pos: "positionOf updates' i = positionOf updates i" for i
      using positionOf_run[OF r, of i] positionOf_run[OF r', of i]
        findIndex_same_ids[OF ids, of i] ids_es
      by simp
    have grp: "filter (\<lambda>u. updateGroupKey u = g) updates'
                 = filter (\<lambda>u. updateGroupKey u = g) updates"
      if g: "g \<noteq> groupKey (group_name ?r)" "g \<noteq> groupKey g'" for g
    proof -
      have same: "a = b" if "R a b"
          and "groupKey (group_name a) = g \<or> groupKey (group_name b) = g" for a b
        using that g by (auto simp: R_def)
      have f: "filter (\<lambda>e. groupKey (group_name e) = g) ?S
                 = filter (\<lambda>e. groupKey (group_name e) = g) ?S'"
        using S same by (rule filter_rel)
      show ?thesis
        by (simp only: grouped_chunk[OF r] grouped_chunk[OF r'] f
              groupUpdates_same_ids[OF ids])
    qed
    show ?thesis using pos grp by blast
  qed
qed


theorem regrouping_keeps_positions_witness:
  "0 < length movedRows
   \<and> (\<exists>updates updates'.
        autoCalculatePositions ''t1'' True movedRows = Upsert updates
      \<and> autoCalculatePositions ''t1'' True
           (movedRows[0 := (movedRows ! 0)\<lparr>group_name := GroupName ''Y''\<rparr>]) = Upsert updates'
      \<and> positionOf updates' ''a'' = positionOf updates ''a''
      \<and> positionOf updates ''a'' = Some 2
      \<and> filter (\<lambda>u. updateGroupKey u = ''Z'') updates'
          = filter (\<lambda>u. updateGroupKey u = ''Z'') updates)"
proof -
  let ?es' = "movedRows[0 := (movedRows ! 0)\<lparr>group_name := GroupName ''Y''\<rparr>]"
  have k: "0 < length movedRows" by (simp add: movedRows_def)
  have "\<forall>e\<in>set movedRows. groupKey (group_name e) \<notin> set objectPrototypeKeys"
    by code_simp
  then obtain updates where u: "autoCalculatePositions ''t1'' True movedRows = Upsert updates"
    using autoCalculatePositions_total[of "''t1''" movedRows True] by (auto simp: movedRows_def)
  have "\<forall>e\<in>set ?es'. groupKey (group_name e) \<notin> set objectPrototypeKeys"
    by code_simp
  then obtain updates' where u': "autoCalculatePositions ''t1'' True ?es' = Upsert updates'"
    using autoCalculatePositions_total[of "''t1''" ?es' True] by (auto simp: movedRows_def)
  have g: "''Z'' \<noteq> groupKey (group_name (movedRows ! 0)) \<and> ''Z'' \<noteq> groupKey (GroupName ''Y'')"
    by code_simp
  have "upserted (autoCalculatePositions ''t1'' True movedRows) = Some updates"
    using u by (simp add: upserted_def)
  moreover have "map_option (\<lambda>us. positionOf us ''a'')
                   (upserted (autoCalculatePositions ''t1'' True movedRows)) = Some (Some 2)"
    by code_simp
  ultimately have p: "positionOf updates ''a'' = Some 2" by simp
  show ?thesis
    using regrouping_keeps_positions[OF k u u'] k u u' g p by blast
qed

section \<open>Counters are not validated\<close>

text \<open>
  Claim C7, as the claim states it, fails: a batch with a negative counter is ranked and
  handed to \<open>upsert\<close> whole.
\<close>

theorem negative_counter_is_ranked:
  "points (row ''a'' (- 5) 0 0 NullGroupName) < 0
   \<and> autoCalculatePositions ''t1'' False
        [row ''a'' (- 5) 0 0 NullGroupName, row ''b'' 3 0 0 NullGroupName]
       = Upsert (overallUpdates [row ''b'' 3 0 0 NullGroupName, row ''a'' (- 5) 0 0 NullGroupName])
   \<and> map (\<lambda>u. (u_id u, u_points u, u_position u))
        (overallUpdates [row ''b'' 3 0 0 NullGroupName, row ''a'' (- 5) 0 0 NullGroupName])
       = [(''b'', 3, 1), (''a'', - 5, 2)]"
  by code_simp

text \<open>
  Claim C7, amended. \<open>autoCalculatePositions\<close> has no check of the counters: with a
  tournament selected and a non-empty list (and, in the grouped branch, no group label
  that names an inherited property of objects), every batch, whatever the sign of its
  counters, is handed to \<open>upsert\<close> whole, with one update per entry that carries the
  entry's id, points, kills and wins as they are.
\<close>

theorem counters_are_not_validated:
  assumes "selectedTournament \<noteq> []" and "pointsEntries \<noteq> []"
    and "supportsGrouping \<longrightarrow>
           (\<forall>e\<in>set pointsEntries. groupKey (group_name e) \<notin> set objectPrototypeKeys)"
  shows "\<exists>updates. autoCalculatePositions selectedTournament supportsGrouping pointsEntries
                     = Upsert updates
           \<and> length updates = length pointsEntries
           \<and> (\<forall>e\<in>set pointsEntries. \<exists>u\<in>set updates.
                  u_id u = id' e \<and> u_points u = points e \<and> u_kills u = kills e
                  \<and> u_wins u = wins e)"
proof -
  from assms obtain updates where
    u: "autoCalculatePositions selectedTournament supportsGrouping pointsEntries = Upsert updates"
    using autoCalculatePositions_total[of selectedTournament pointsEntries supportsGrouping]
    by blast
  from u obtain T where c: "list_all2 carries updates T" and m: "mset T = mset pointsEntries"
    by (rule updates_related)
  have s: "set T = set pointsEntries" using m by (rule mset_eq_setD)
  have "length updates = length T" using c by (rule list_all2_lengthD)
  also have "\<dots> = length pointsEntries" using m by (metis size_mset)
  finally have l: "length updates = length pointsEntries" .
  have "\<exists>u\<in>set updates. u_id u = id' e \<and> u_points u = points e \<and> u_kills u = kills e
                  \<and> u_wins u = wins e" if "e \<in> set pointsEntries" for e
  proof -
    from that s have "e \<in> set T" by simp
    with list_all2_right[OF c] obtain v where "v \<in> set updates" "carries v e" by blast
    then show ?thesis by (auto simp: carries_def)
  qed
  with u l show ?thesis by blast
qed

theorem counters_are_not_validated_witness:
  "''t1'' \<noteq> [] \<and> [row ''a'' (- 5) 0 0 NullGroupName, row ''b'' 3 0 0 NullGroupName] \<noteq> []
   \<and> points (row ''a'' (- 5) 0 0 NullGroupName) < 0
   \<and> (\<exists>updates. autoCalculatePositions ''t1'' False
                     [row ''a'' (- 5) 0 0 NullGroupName, row ''b'' 3 0 0 NullGroupName]
                     = Upsert updates
           \<and> length updates
               = length [row ''a'' (- 5) 0 0 NullGroupName, row ''b'' 3 0 0 NullGroupName]
           \<and> (\<exists>u\<in>set updates. u_id u = ''a'' \<and> u_points u = - 5))"
proof -
  let ?es = "[row ''a'' (- 5) 0 0 NullGroupName, row ''b'' 3 0 0 NullGroupName]"
  have n: "points (row ''a'' (- 5) 0 0 NullGroupName) < 0" by (simp add: row_def)
  have a: "row ''a'' (- 5) 0 0 NullGroupName \<in> set ?es" by simp
  have f: "id' (row ''a'' (- 5) 0 0 NullGroupName) = ''a''"
    "points (row ''a'' (- 5) 0 0 NullGroupName) = - 5"
    by (simp_all add: row_def)
  from counters_are_not_validated[of "''t1''" ?es False]
  obtain updates where u: "autoCalculatePositions ''t1'' False ?es = Upsert updates"
    and l: "length updates = length ?es"
    and c: "\<forall>e\<in>set ?es. \<exists>u\<in>set updates.
                  u_id u = id' e \<and> u_points u = points e \<and> u_kills u = kills e
                  \<and> u_wins u = wins e"
    by auto
  from c a obtain v where "v \<in> set updates" "u_id v = ''a''" "u_points v = - 5"
    using f by metis
  with u l n show ?thesis by auto
qed

section \<open>Round-robin group assignment\<close>

lemma slice0_groupLetters:
  "0 \<le> G \<Longrightarrow> G \<le> 8 \<Longrightarrow> slice0 groupLetters G = take (nat G) groupLetters"
  by (simp add: slice0_def)

lemma length_groupLetters: "length groupLetters = 8"
  by (simp add: groupLetters_def)

lemma jsRemainder_index: "0 < G \<Longrightarrow> jsRemainder (int i) G = Some (int (i mod nat G))"
  by (cases "i = 0") (simp_all add: jsRemainder_def zmod_int)

lemma autoAssignGroups_updates:
  assumes "selectedTournament \<noteq> []" "pointsEntries \<noteq> []"
  shows "autoAssignGroups selectedTournament G pointsEntries =
     Upsert (map (\<lambda>(index, entry).
                      entry\<lparr> group_name :=
                        GroupName (groupLabel
                          (elementAt (slice0 groupLetters G) (jsRemainder (int index) G))) \<rparr>)
                   (enumerate 0 pointsEntries))"
  using assms by (simp add: autoAssignGroups_def Let_def)

text \<open>
  Claim C8. With a tournament selected, a non-empty list and a group count \<open>G\<close> between
  2 and 8, \<open>autoAssignGroups\<close> gives the record at index \<open>i\<close> the label \<open>Group\<close> followed
  by letter number \<open>i mod G\<close> of A to H, and changes nothing else of the record; for
  seven records and \<open>G = 3\<close> the labels are A, B, C, A, B, C, A.
\<close>

theorem autoAssignGroups_round_robin:
  assumes "2 \<le> G" and "G \<le> 8" and "selectedTournament \<noteq> []" and "pointsEntries \<noteq> []"
  shows "\<exists>updates. autoAssignGroups selectedTournament G pointsEntries = Upsert updates
           \<and> length updates = length pointsEntries
           \<and> (\<forall>i<length pointsEntries.
                 updates ! i = (pointsEntries ! i)
                   \<lparr> group_name := GroupName (''Group '' @ groupLetters ! (i mod nat G)) \<rparr>)"
proof -
  have label: "groupLabel (elementAt (slice0 groupLetters G) (jsRemainder (int i) G))
                 = ''Group '' @ groupLetters ! (i mod nat G)" for i
  proof -
    have "i mod nat G < nat G" using assms(1) by simp
    then have "int (i mod nat G) < G" using assms(1) by linarith
    then show ?thesis
      using assms(1,2)
      by (simp add: jsRemainder_index slice0_groupLetters elementAt_def groupLabel_def
            length_groupLetters)
  qed
  show ?thesis
    unfolding autoAssignGroups_updates[OF assms(3,4)]
    by (simp add: label nth_enumerate_eq)
qed

theorem autoAssignGroups_round_robin_witness:
  "(2::int) \<le> 3 \<and> (3::int) \<le> 8 \<and> ''t1'' \<noteq> [] \<and> sevenRows \<noteq> []
   \<and> (\<exists>updates. autoAssignGroups ''t1'' 3 sevenRows = Upsert updates
          \<and> map group_name updates =
              [GroupName ''Group A'', GroupName ''Group B'', GroupName ''Group C'',
               GroupName ''Group A'', GroupName ''Group B'', GroupName ''Group C'',
               GroupName ''Group A''])"
proof -
  have h: "(2::int) \<le> 3" "(3::int) \<le> 8" "''t1'' \<noteq> []" "sevenRows \<noteq> []"
    by (simp_all add: sevenRows_def)
  from autoAssignGroups_round_robin[OF h] obtain updates where
    u: "autoAssignGroups ''t1'' 3 sevenRows = Upsert updates"
    and l: "length updates = length sevenRows"
    and n: "\<forall>i<length sevenRows. updates ! i = (sevenRows ! i)
              \<lparr> group_name := GroupName (''Group '' @ groupLetters ! (i mod nat 3)) \<rparr>"
    by blast
  have "map group_name updates =
          map (\<lambda>i. GroupName (''Group '' @ groupLetters ! (i mod nat 3))) [0..<length sevenRows]"
    by (rule nth_equalityI) (simp_all add: l n)
  also have "\<dots> = [GroupName ''Group A'', GroupName ''Group B'', GroupName ''Group C'',
               GroupName ''Group A'', GroupName ''Group B'', GroupName ''Group C'',
               GroupName ''Group A'']"
    by (simp add: sevenRows_def groupLetters_def upt_rec)
  finally show ?thesis using h u by simp
qed

text \<open>
  Claim C6. The field of the group count declares the bounds 2 and 8 and the code has
  eight group letters, yet a typed 9 is stored as the group count, and
  \<open>autoAssignGroups\<close> with it labels nine records instead of rejecting the request: the
  ninth gets the label \<open>Group undefined\<close>.
\<close>

theorem groupCount_nine_not_rejected:
  "onNumberOfGroupsChange ''9'' = Finite 9
   \<and> map_option (map group_name) (upserted (autoAssignGroups ''t1'' 9 nineRows))
       = Some [GroupName ''Group A'', GroupName ''Group B'', GroupName ''Group C'',
               GroupName ''Group D'', GroupName ''Group E'', GroupName ''Group F'',
               GroupName ''Group G'', GroupName ''Group H'', GroupName ''Group undefined'']"
  by code_simp

section \<open>The tie-break on wins\<close>

text \<open>
  Claim C1. Two rows tie on points and kills, and the second has more wins.
  \<open>autoCalculatePositions\<close> compares points and kills only, so the rows keep their
  input order and the row with fewer wins gets position 1. The points table shown to
  participants compares wins as well and numbers the same two rows the other way round.
\<close>

theorem autoCalculatePositions_ignores_wins:
  "upserted (autoCalculatePositions ''t1'' False
      [row ''a'' 10 5 0 NullGroupName, row ''b'' 10 5 3 NullGroupName])
   = Some (overallUpdates [row ''a'' 10 5 0 NullGroupName, row ''b'' 10 5 3 NullGroupName])
   \<and> map (\<lambda>u. (u_id u, u_wins u, u_position u))
        (overallUpdates [row ''a'' 10 5 0 NullGroupName, row ''b'' 10 5 3 NullGroupName])
     = [(''a'', 0, 1), (''b'', 3, 2)]
   \<and> map (\<lambda>e. (id' e, wins e, position_in_group e))
        (rankGroupForDisplay [row ''a'' 10 5 0 NullGroupName, row ''b'' 10 5 3 NullGroupName])
     = [(''b'', 3, Some 1), (''a'', 0, Some 2)]"
  by (simp add: autoCalculatePositions_def sortBy_def compareEntries_def overallUpdates_def
        row_def upserted_def rankGroupForDisplay_def compareForDisplay_def)

section \<open>The team-size parser and the solo case\<close>

lemma toLowerCase_digit:
  assumes "c \<in> set (toLowerCase s)" and "isDigit c"
  shows "\<exists>d\<in>set s. isDigit d"
proof -
  from assms(1) obtain d where d: "d \<in> set s"
    and c: "c = (let n = of_char d :: nat in
               if (65 \<le> n \<and> n \<le> 90) \<or> (192 \<le> n \<and> n \<le> 222 \<and> n \<noteq> 215)
               then char_of (n + 32) else d)"
    by (auto simp: toLowerCase_def)
  have "isDigit d"
  proof (cases "(65 \<le> (of_char d :: nat) \<and> (of_char d :: nat) \<le> 90)
                \<or> (192 \<le> (of_char d :: nat) \<and> (of_char d :: nat) \<le> 222
                    \<and> (of_char d :: nat) \<noteq> 215)")
    case False
    with c have "c = d" by (simp add: Let_def)
    with assms(2) show ?thesis by simp
  next
    case True
    with c have "c = char_of ((of_char d :: nat) + 32)" by (simp add: Let_def)
    then have "(of_char c :: nat) = ((of_char d :: nat) + 32) mod 256" by simp
    with True have "(of_char c :: nat) \<ge> 97" by auto
    with assms(2) show ?thesis by (simp add: isDigit_def Let_def)
  qed
  with d show ?thesis by blast
qed

lemma set_trim: "set (trim s) \<subseteq> set s"
proof
  fix c assume "c \<in> set (trim s)"
  then have "c \<in> set (dropWhile isWhiteSpace (rev (dropWhile isWhiteSpace s)))"
    by (simp add: trim_def)
  then have "c \<in> set (rev (dropWhile isWhiteSpace s))" by (rule set_dropWhileD)
  then have "c \<in> set (dropWhile isWhiteSpace s)" by simp
  then show "c \<in> set s" by (rule set_dropWhileD)
qed

lemma radixDigit_decimal: "radixDigit 10 c \<Longrightarrow> isDigit c"
  by (auto simp: radixDigit_def hexValue_def isDigit_def Let_def split: option.splits if_splits)

lemma takeWhile_none: "\<forall>x\<in>set xs. \<not> P x \<Longrightarrow> takeWhile P xs = []"
  by (cases xs) simp_all

lemma parseInt_no_digit:
  assumes "\<forall>c\<in>set t. \<not> isDigit c"
  shows "parseInt t = NaN"
proof -
  define s where "s = dropWhile isWhiteSpace t"
  define s1 where "s1 = (if s \<noteq> [] \<and> (hd s = CHR ''+'' \<or> hd s = CHR ''-'') then tl s else s)"
  have "set s \<subseteq> set t" unfolding s_def by (auto dest: set_dropWhileD)
  moreover have "set s1 \<subseteq> set s" unfolding s1_def by (auto dest: list.set_sel(2))
  ultimately have nd: "\<forall>c\<in>set s1. \<not> isDigit c" using assms by blast
  have zero: "isDigit CHR ''0''" by (simp add: isDigit_def)
  have nohex: "\<not> (take 2 s1 = ''0x'' \<or> take 2 s1 = ''0X'')"
  proof
    assume "take 2 s1 = ''0x'' \<or> take 2 s1 = ''0X''"
    then have "CHR ''0'' \<in> set (take 2 s1)" by auto
    then have "CHR ''0'' \<in> set s1" by (rule in_set_takeD)
    with nd zero show False by blast
  qed
  have "takeWhile (radixDigit 10) s1 = []"
    using nd by (intro takeWhile_none) (auto dest: radixDigit_decimal)
  with nohex show ?thesis
    unfolding parseInt_def Let_def s_def[symmetric] s1_def[symmetric] by simp
qed

text \<open>Every string without a digit is among the strings that do not parse.\<close>

lemma digit_free_does_not_parse:
  "\<forall>c\<in>set s. \<not> isDigit c \<Longrightarrow> parseInt (trim (toLowerCase s)) = NaN"
  using set_trim[of "toLowerCase s"] toLowerCase_digit[of _ s]
  by (intro parseInt_no_digit) blast

lemma jsLessEq_not_greater: "jsLessEq n (Finite 1) \<Longrightarrow> \<not> jsGreater n (Finite 1)"
  by (cases n) simp_all

lemma parseTeamSize_returns:
  "(\<exists>n. parseTeamSize v = Inr n) \<longleftrightarrow> (\<forall>err. v \<noteq> JSObject (Inl err))"
proof (cases v)
  case (JSObject conversion)
  then show ?thesis by (cases conversion) simp_all
qed simp_all

text \<open>
  Claim C10, as the claim states it, fails: for an object whose conversion to a string
  throws, \<open>parseTeamSize\<close> returns no number; the exception leaves it and the component.
\<close>

theorem parseTeamSize_object_throws:
  "parseTeamSize (JSObject (Inl TypeError)) = Inl TypeError
   \<and> PointsTable (JSObject (Inl TypeError)) False [] = Inl TypeError"
  by (simp add: PointsTable_def)

text \<open>
  Claim C10, amended. \<open>parseTeamSize\<close> returns a number for every value but an object
  whose conversion to a string throws. It returns 1 for \<open>null\<close>, for \<open>undefined\<close> and for
  every string that, lower-cased and trimmed, is unrecognized (it contains none of duo,
  squad, 5 and five and is neither 2 nor 4) and non-numeric (\<open>parseInt\<close> gives \<open>NaN\<close>
  for it). Whenever the parsed size is at most 1 the component takes its first
  \<open>return\<close>, which renders nothing, whatever the loading flag and the entries are.
\<close>

theorem parseTeamSize_defaults_to_solo:
  "((\<exists>m. parseTeamSize v = Inr m) \<longleftrightarrow> (\<forall>err. v \<noteq> JSObject (Inl err)))
   \<and> parseTeamSize JSNull = Inr (Finite 1) \<and> parseTeamSize JSUndefined = Inr (Finite 1)
   \<and> (\<not> stringIncludes (trim (toLowerCase s)) ''duo'' \<and> trim (toLowerCase s) \<noteq> ''2''
        \<and> \<not> stringIncludes (trim (toLowerCase s)) ''squad'' \<and> trim (toLowerCase s) \<noteq> ''4''
        \<and> \<not> stringIncludes (trim (toLowerCase s)) ''5''
        \<and> \<not> stringIncludes (trim (toLowerCase s)) ''five''
        \<and> parseInt (trim (toLowerCase s)) = NaN
        \<longrightarrow> parseTeamSize (JSString s) = Inr (Finite 1))
   \<and> (parseTeamSize v = Inr n \<and> jsLessEq n (Finite 1)
        \<longrightarrow> PointsTable v loading pointsEntries = Inr RendersNothing)"
proof -
  have "parseTeamSize (JSString s) = Inr (Finite 1)"
    if "\<not> stringIncludes (trim (toLowerCase s)) ''duo''" "trim (toLowerCase s) \<noteq> ''2''"
      "\<not> stringIncludes (trim (toLowerCase s)) ''squad''" "trim (toLowerCase s) \<noteq> ''4''"
      "\<not> stringIncludes (trim (toLowerCase s)) ''5''"
      "\<not> stringIncludes (trim (toLowerCase s)) ''five''"
      "parseInt (trim (toLowerCase s)) = NaN"
    using that by (simp add: sizeFromString_def Let_def)
  moreover have "PointsTable v loading pointsEntries = Inr RendersNothing"
    if "parseTeamSize v = Inr n" "jsLessEq n (Finite 1)"
    using that(1) jsLessEq_not_greater[OF that(2)] by (simp add: PointsTable_def Let_def)
  ultimately show ?thesis using parseTeamSize_returns[of v] by simp
qed

theorem parseTeamSize_defaults_to_solo_witness:
  "(\<exists>m. parseTeamSize (JSString ''x3'') = Inr m)
   \<and> parseTeamSize JSNull = Inr (Finite 1) \<and> parseTeamSize JSUndefined = Inr (Finite 1)
   \<and> parseInt (trim (toLowerCase ''x3'')) = NaN
   \<and> parseTeamSize (JSString ''x3'') = Inr (Finite 1)
   \<and> jsLessEq (Finite 1) (Finite 1)
   \<and> PointsTable (JSString ''x3'') False [row ''a'' 1 0 0 NullGroupName] = Inr RendersNothing"
proof -
  have h: "\<not> stringIncludes (trim (toLowerCase ''x3'')) ''duo'' \<and> trim (toLowerCase ''x3'') \<noteq> ''2''
        \<and> \<not> stringIncludes (trim (toLowerCase ''x3'')) ''squad'' \<and> trim (toLowerCase ''x3'') \<noteq> ''4''
        \<and> \<not> stringIncludes (trim (toLowerCase ''x3'')) ''5''
        \<and> \<not> stringIncludes (trim (toLowerCase ''x3'')) ''five''
        \<and> parseInt (trim (toLowerCase ''x3'')) = NaN"
    by code_simp
  have o: "\<forall>err. JSString ''x3'' \<noteq> JSObject (Inl err)" by simp
  have l: "jsLessEq (Finite 1) (Finite 1)" by simp
  note t = parseTeamSize_defaults_to_solo[where v = "JSString ''x3''" and s = "''x3''"
      and n = "Finite 1" and loading = False and pointsEntries = "[row ''a'' 1 0 0 NullGroupName]"]
  from t h have p: "parseTeamSize (JSString ''x3'') = Inr (Finite 1)" by blast
  with t h o l show ?thesis by blast
qed

end
